theory Spec2Isabelle
  imports Main "HOL-Library.Word"
begin

unbundle bit_operations_syntax

section \<open>NumPy unsigned 64-bit values\<close>

text \<open>
  A bitboard is an \<open>np.uint64\<close>. Square arguments are Python integers (\<open>int\<close>); the
  source converts them with \<open>np.uint64(...)\<close> before shifting. The conversion of a Python
  integer is modelled as NumPy 1.x performs it, by reduction modulo \<open>2 ^ 64\<close>, and the shift
  operators as NumPy defines them on \<open>uint64\<close>: a shift count of 64 or more yields 0.
  Python's \<open>%\<close> on integers rounds towards minus infinity, as \<open>mod\<close> on \<open>int\<close> does.
\<close>

type_synonym bitboard = "64 word"

definition uint64 :: "int \<Rightarrow> 64 word" where
  "uint64 n = word_of_int n"

definition lshift :: "64 word \<Rightarrow> 64 word \<Rightarrow> 64 word" where
  "lshift a b = (if unat b < 64 then push_bit (unat b) a else 0)"

definition rshift :: "64 word \<Rightarrow> 64 word \<Rightarrow> 64 word" where
  "rshift a b = (if unat b < 64 then drop_bit (unat b) a else 0)"

section \<open>Constants of \<open>chess_constants\<close>\<close>

text \<open>
  Modelled from the spec: the module \<open>chess_constants\<close> (\<open>HOT\<close>, \<open>File\<close>) is not among the
  sources. Squares are numbered rank-major, \<open>square = rank * 8 + file\<close>; \<open>File.A\<close> ...
  \<open>File.H\<close> are the sets of the eight squares of a file (the source tests membership with
  \<open>in\<close> and unites them with \<open>|\<close>), \<open>File.hexA\<close> ... \<open>File.hexH\<close> the bitboards of those
  squares, and \<open>HOT\<close> the bitboard with only bit 0 set.
\<close>

definition HOT :: bitboard where
  "HOT = 1"

definition File_squares :: "int \<Rightarrow> int list" where
  "File_squares f = map (\<lambda>r. r * 8 + f) [0, 1, 2, 3, 4, 5, 6, 7]"

definition File_A :: "int list" where "File_A = File_squares 0"
definition File_B :: "int list" where "File_B = File_squares 1"
definition File_G :: "int list" where "File_G = File_squares 6"
definition File_H :: "int list" where "File_H = File_squares 7"

definition File_hexA :: bitboard where "File_hexA = 0x0101010101010101"
definition File_hexB :: bitboard where "File_hexB = 0x0202020202020202"
definition File_hexG :: bitboard where "File_hexG = 0x4040404040404040"
definition File_hexH :: bitboard where "File_hexH = 0x8080808080808080"

section \<open>Bit operations (\<open>chess_bitboard_helpers\<close>)\<close>

definition set_bit_bb :: "bitboard \<Rightarrow> int \<Rightarrow> bitboard" where
  "set_bit_bb bitboard b = bitboard OR lshift 1 (uint64 b)"

definition clear_bit_bb :: "bitboard \<Rightarrow> int \<Rightarrow> bitboard" where
  "clear_bit_bb bitboard b = bitboard AND NOT (lshift 1 (uint64 b))"

section \<open>Rays\<close>

text \<open>
  \<open>get_south_ray\<close> and \<open>get_north_ray\<close> run over \<open>range(0, -64, -8)\<close> and
  \<open>range(0, 64, 8)\<close>, eight iterations each.
\<close>

definition get_south_ray :: "bitboard \<Rightarrow> int \<Rightarrow> bitboard" where
  "get_south_ray bitboard from_square =
     clear_bit_bb
       (foldl (\<lambda>bb i. bb OR set_bit_bb bb (from_square + i)) bitboard
          [0, - 8, - 16, - 24, - 32, - 40, - 48, - 56])
       from_square"

definition get_north_ray :: "bitboard \<Rightarrow> int \<Rightarrow> bitboard" where
  "get_north_ray bitboard from_square =
     clear_bit_bb
       (foldl (\<lambda>bb i. bb OR set_bit_bb bb (from_square + i)) bitboard
          [0, 8, 16, 24, 32, 40, 48, 56])
       from_square"

text \<open>
  The \<open>while\<close> loops of the six other rays. Each returns the bitboard together with the
  square at which the loop stopped, which some rays use after the loop.
\<close>

function west_loop :: "bitboard \<Rightarrow> int \<Rightarrow> bitboard \<times> int" where
  "west_loop bitboard from_square =
     (if from_square mod 8 \<noteq> 0
      then west_loop (bitboard OR lshift HOT (uint64 from_square)) (from_square - 1)
      else (bitboard, from_square))"
  by pat_completeness auto
termination
  by (relation "measure (\<lambda>(bb, sq). nat (sq mod 8))") (auto simp: nat_less_iff, presburger+)

function east_loop :: "bitboard \<Rightarrow> int \<Rightarrow> bitboard \<times> int" where
  "east_loop bitboard from_square =
     (if from_square mod 8 \<noteq> 0
      then east_loop (bitboard OR lshift HOT (uint64 from_square)) (from_square + 1)
      else (bitboard, from_square))"
  by pat_completeness auto
termination
  by (relation "measure (\<lambda>(bb, sq). nat (7 - (sq - 1) mod 8))") (auto simp: nat_less_iff, presburger+)

function southeast_loop :: "bitboard \<Rightarrow> int \<Rightarrow> bitboard \<times> int" where
  "southeast_loop bitboard from_square =
     (if from_square mod 8 \<noteq> 0 \<and> from_square \<notin> set File_H
      then southeast_loop (bitboard OR lshift HOT (uint64 from_square)) (from_square - 7)
      else (bitboard, from_square))"
  by pat_completeness auto
termination
  by (relation "measure (\<lambda>(bb, sq). nat (7 - (sq - 1) mod 8))") (auto simp: nat_less_iff, presburger+)

function northwest_loop :: "bitboard \<Rightarrow> int \<Rightarrow> bitboard \<times> int" where
  "northwest_loop bitboard from_square =
     (if from_square mod 8 \<noteq> 0 \<and> from_square \<notin> set File_A
      then northwest_loop (bitboard OR lshift HOT (uint64 from_square)) (from_square + 7)
      else (bitboard, from_square))"
  by pat_completeness auto
termination
  by (relation "measure (\<lambda>(bb, sq). nat (sq mod 8))") (auto simp: nat_less_iff, presburger+)

function southwest_loop :: "bitboard \<Rightarrow> int \<Rightarrow> bitboard \<times> int" where
  "southwest_loop bitboard from_square =
     (if from_square mod 8 \<noteq> 0
      then southwest_loop (bitboard OR lshift HOT (uint64 from_square)) (from_square - 9)
      else (bitboard, from_square))"
  by pat_completeness auto
termination
  by (relation "measure (\<lambda>(bb, sq). nat (sq mod 8))") (auto simp: nat_less_iff, presburger+)

function northeast_loop :: "bitboard \<Rightarrow> int \<Rightarrow> bitboard \<times> int" where
  "northeast_loop bitboard from_square =
     (if from_square mod 8 \<noteq> 0
      then northeast_loop (bitboard OR lshift HOT (uint64 from_square)) (from_square + 9)
      else (bitboard, from_square))"
  by pat_completeness auto
termination
  by (relation "measure (\<lambda>(bb, sq). nat (7 - (sq - 1) mod 8))") (auto simp: nat_less_iff, presburger+)

declare west_loop.simps [simp del] east_loop.simps [simp del]
  southeast_loop.simps [simp del] northwest_loop.simps [simp del]
  southwest_loop.simps [simp del] northeast_loop.simps [simp del]

definition get_west_ray :: "bitboard \<Rightarrow> int \<Rightarrow> bitboard" where
  "get_west_ray bitboard from_square =
     (let bb = (if from_square mod 8 = 0
                then bitboard OR lshift HOT (uint64 from_square)
                else (let (bb1, sq1) = west_loop bitboard from_square
                      in bb1 OR lshift HOT (uint64 sq1)))
      in clear_bit_bb bb from_square)"

definition get_east_ray :: "bitboard \<Rightarrow> int \<Rightarrow> bitboard" where
  "get_east_ray bitboard from_square =
     (let (bb0, sq0) = (if from_square mod 8 = 0
                        then (bitboard OR lshift HOT (uint64 from_square), from_square + 1)
                        else (bitboard, from_square));
          (bb1, sq1) = east_loop bb0 sq0
      in clear_bit_bb bb1 from_square)"

definition get_southeast_ray :: "bitboard \<Rightarrow> int \<Rightarrow> bitboard" where
  "get_southeast_ray bitboard from_square =
     (let (bb0, sq0) = (if from_square mod 8 = 0 \<and> from_square \<notin> set File_H
                        then (bitboard OR lshift HOT (uint64 from_square), from_square - 7)
                        else (bitboard, from_square));
          (bb1, sq1) = southeast_loop bb0 sq0;
          bb2 = bb1 OR lshift HOT (uint64 sq1)
      in clear_bit_bb bb2 from_square)"

definition get_northwest_ray :: "bitboard \<Rightarrow> int \<Rightarrow> bitboard" where
  "get_northwest_ray bitboard from_square =
     (let (bb0, sq0) = (if from_square mod 8 = 0 \<and> from_square \<notin> set File_A
                        then (bitboard OR lshift HOT (uint64 from_square), from_square + 7)
                        else (bitboard, from_square));
          (bb1, sq1) = northwest_loop bb0 sq0;
          bb2 = bb1 OR lshift HOT (uint64 sq1)
      in clear_bit_bb bb2 from_square)"

definition get_southwest_ray :: "bitboard \<Rightarrow> int \<Rightarrow> bitboard" where
  "get_southwest_ray bitboard from_square =
     (let bb = (if from_square mod 8 = 0
                then bitboard OR lshift HOT (uint64 from_square)
                else (let (bb1, sq1) = southwest_loop bitboard from_square
                      in bb1 OR lshift HOT (uint64 sq1)))
      in clear_bit_bb bb from_square)"

definition get_northeast_ray :: "bitboard \<Rightarrow> int \<Rightarrow> bitboard" where
  "get_northeast_ray bitboard from_square =
     (let (bb0, sq0) = (if from_square mod 8 = 0
                        then (bitboard OR lshift HOT (uint64 from_square), from_square + 9)
                        else (bitboard, from_square));
          (bb1, sq1) = northeast_loop bb0 sq0
      in clear_bit_bb bb1 from_square)"

section \<open>Occupied squares of a bitboard\<close>

text \<open>
  \<open>get_knight_squares\<close>, \<open>get_bishop_squares\<close>, \<open>get_rook_squares\<close>,
  \<open>get_queen_squares\<close> and \<open>get_king_squares\<close> have the same body: the squares of
  \<open>range(64)\<close> whose bit is set, in increasing order.
\<close>

definition get_knight_squares :: "bitboard \<Rightarrow> int list" where
  "get_knight_squares bitboard =
     filter (\<lambda>square. bitboard AND lshift 1 (uint64 square) \<noteq> 0) [0..63]"

definition get_bishop_squares :: "bitboard \<Rightarrow> int list" where
  "get_bishop_squares bitboard =
     filter (\<lambda>square. bitboard AND lshift 1 (uint64 square) \<noteq> 0) [0..63]"

definition get_rook_squares :: "bitboard \<Rightarrow> int list" where
  "get_rook_squares bitboard =
     filter (\<lambda>square. bitboard AND lshift 1 (uint64 square) \<noteq> 0) [0..63]"

definition get_queen_squares :: "bitboard \<Rightarrow> int list" where
  "get_queen_squares bitboard =
     filter (\<lambda>square. bitboard AND lshift 1 (uint64 square) \<noteq> 0) [0..63]"

definition get_king_squares :: "bitboard \<Rightarrow> int list" where
  "get_king_squares bitboard =
     filter (\<lambda>square. bitboard AND lshift 1 (uint64 square) \<noteq> 0) [0..63]"

section \<open>The knight\<close>

text \<open>One iteration of the loop over the eight shifts in \<open>gen_knight_attack\<close>.\<close>

definition knight_step :: "int \<Rightarrow> bitboard \<Rightarrow> int \<Rightarrow> bitboard" where
  "knight_step square attack_bitboard shift =
     (let bb1 = attack_bitboard OR set_bit_bb attack_bitboard (square + shift);
          bb2 = (if square \<in> set (File_A @ File_B)
                 then bb1 AND NOT (File_hexG OR File_hexH) else bb1);
          bb3 = (if square \<in> set (File_G @ File_H)
                 then bb2 AND NOT (File_hexA OR File_hexB) else bb2)
      in bb3)"

definition gen_knight_attack :: "int \<Rightarrow> bitboard" where
  "gen_knight_attack square =
     foldl (knight_step square) 0 [6, 10, 15, 17, - 6, - 10, - 15, - 17]"

definition make_knight_attack :: "bitboard \<Rightarrow> bitboard" where
  "make_knight_attack bitboard =
     foldl (\<lambda>knight_attack square. knight_attack OR gen_knight_attack square) 0
       (get_knight_squares bitboard)"

section \<open>The bishop\<close>

definition gen_bishop_attack :: "int \<Rightarrow> bitboard" where
  "gen_bishop_attack from_square =
     (let attack_bb = get_northeast_ray 0 from_square;
          attack_bb = get_southwest_ray attack_bb from_square;
          attack_bb = get_northwest_ray attack_bb from_square;
          attack_bb = get_southeast_ray attack_bb from_square
      in clear_bit_bb attack_bb from_square)"

definition make_bishop_attack :: "bitboard \<Rightarrow> bitboard" where
  "make_bishop_attack bitboard =
     foldl (\<lambda>bishop_attack square. bishop_attack OR gen_bishop_attack square) 0
       (get_bishop_squares bitboard)"

section \<open>The rook\<close>

definition gen_rook_attack_row :: "int \<Rightarrow> bitboard" where
  "gen_rook_attack_row square =
     (let attack_bb = get_north_ray 0 square;
          attack_bb = get_south_ray attack_bb square
      in clear_bit_bb attack_bb square)"

definition gen_rook_attack_file :: "int \<Rightarrow> bitboard" where
  "gen_rook_attack_file square =
     (let attack_bb = get_east_ray 0 square;
          attack_bb = get_west_ray attack_bb square
      in clear_bit_bb attack_bb square)"

definition make_rook_attack :: "bitboard \<Rightarrow> bitboard" where
  "make_rook_attack bitboard =
     foldl (\<lambda>rook_attack square.
              rook_attack OR (gen_rook_attack_file square OR gen_rook_attack_row square)) 0
       (get_rook_squares bitboard)"

section \<open>The queen\<close>

definition gen_queen_attack :: "int \<Rightarrow> bitboard" where
  "gen_queen_attack square =
     gen_bishop_attack square OR gen_rook_attack_row square OR gen_rook_attack_file square"

definition make_queen_attack :: "bitboard \<Rightarrow> bitboard" where
  "make_queen_attack bitboard =
     foldl (\<lambda>queen_attack square. queen_attack OR gen_queen_attack square) 0
       (get_queen_squares bitboard)"

section \<open>The king\<close>

definition gen_king_attack :: "int \<Rightarrow> bitboard" where
  "gen_king_attack square =
     (let bb1 = foldl (\<lambda>attack_bb i. attack_bb OR lshift HOT (uint64 (square + i)))
                  0 [8, - 8];
          bb2 = foldl (\<lambda>attack_bb i. attack_bb OR
                         (lshift HOT (uint64 (square + i)) AND NOT File_hexA))
                  bb1 [1, 9, - 7];
          bb3 = foldl (\<lambda>attack_bb i. attack_bb OR
                         (lshift HOT (uint64 (square + i)) AND NOT File_hexH))
                  bb2 [- 1, - 9, 7]
      in bb3)"

definition make_king_attack :: "bitboard \<Rightarrow> bitboard" where
  "make_king_attack bitboard =
     foldl (\<lambda>king_attack square. king_attack OR gen_king_attack square) 0
       (get_king_squares bitboard)"

section \<open>The board adapter (\<open>chess_board\<close>)\<close>

text \<open>
  The external rules engine (\<open>chess.Board\<close>) as far as \<open>Board\<close> reads it: the occupancy
  of the two colours, \<open>occupied_co = [black, white]\<close>, and one mask per piece kind.
\<close>

record Engine =
  occupied_co :: "bitboard \<times> bitboard"
  pawns :: bitboard
  rooks :: bitboard
  knights :: bitboard
  bishops :: bitboard
  queens :: bitboard
  kings :: bitboard

record Board =
  board :: Engine
  black_pawn_bitboard :: bitboard
  black_rook_bitboard :: bitboard
  black_knight_bitboard :: bitboard
  black_bishop_bitboard :: bitboard
  black_queen_bitboard :: bitboard
  black_king_bitboard :: bitboard
  white_pawn_bitboard :: bitboard
  white_rook_bitboard :: bitboard
  white_knight_bitboard :: bitboard
  white_bishop_bitboard :: bitboard
  white_queen_bitboard :: bitboard
  white_king_bitboard :: bitboard
  white_knight_attacks_bitboard :: bitboard
  black_knight_attacks_bitboard :: bitboard
  white_bishop_attacks_bitboard :: bitboard
  black_bishop_attacks_bitboard :: bitboard
  white_rook_attacks_bitboard :: bitboard
  black_rook_attacks_bitboard :: bitboard
  white_queen_attacks_bitboard :: bitboard
  black_queen_attacks_bitboard :: bitboard
  white_king_attacks_bitboard :: bitboard
  black_king_attacks_bitboard :: bitboard

subsection \<open>Properties of \<open>Board\<close>\<close>

definition white_pieces :: "Board \<Rightarrow> bitboard" where
  "white_pieces self =
     white_pawn_bitboard self OR white_knight_bitboard self OR white_bishop_bitboard self
       OR white_rook_bitboard self OR white_queen_bitboard self OR white_king_bitboard self"

definition black_pieces :: "Board \<Rightarrow> bitboard" where
  "black_pieces self =
     black_pawn_bitboard self OR black_knight_bitboard self OR black_bishop_bitboard self
       OR black_rook_bitboard self OR black_queen_bitboard self OR black_king_bitboard self"

definition empty_squares :: "Board \<Rightarrow> bitboard" where
  "empty_squares self = NOT (white_pieces self OR black_pieces self)"

definition occupied_squares :: "Board \<Rightarrow> bitboard" where
  "occupied_squares self = white_pieces self OR black_pieces self"

definition white_pawn_east_attacks :: "Board \<Rightarrow> bitboard" where
  "white_pawn_east_attacks self =
     lshift (white_pawn_bitboard self) (uint64 9) AND NOT File_hexA"

definition white_pawn_west_attacks :: "Board \<Rightarrow> bitboard" where
  "white_pawn_west_attacks self =
     lshift (white_pawn_bitboard self) (uint64 7) AND NOT File_hexH"

definition white_pawn_attacks :: "Board \<Rightarrow> bitboard" where
  "white_pawn_attacks self = white_pawn_east_attacks self OR white_pawn_west_attacks self"

definition black_pawn_east_attacks :: "Board \<Rightarrow> bitboard" where
  "black_pawn_east_attacks self =
     rshift (black_pawn_bitboard self) (uint64 7) AND NOT File_hexA"

definition black_pawn_west_attacks :: "Board \<Rightarrow> bitboard" where
  "black_pawn_west_attacks self =
     rshift (black_pawn_bitboard self) (uint64 9) AND NOT File_hexH"

definition black_pawn_attacks :: "Board \<Rightarrow> bitboard" where
  "black_pawn_attacks self = black_pawn_east_attacks self OR black_pawn_west_attacks self"

definition white_knight_attacks :: "Board \<Rightarrow> bitboard" where
  "white_knight_attacks self = make_knight_attack (white_knight_bitboard self)"

definition black_knight_attacks :: "Board \<Rightarrow> bitboard" where
  "black_knight_attacks self = make_knight_attack (black_knight_bitboard self)"

definition white_bishop_attacks :: "Board \<Rightarrow> bitboard" where
  "white_bishop_attacks self = make_bishop_attack (white_bishop_bitboard self)"

definition black_bishop_attacks :: "Board \<Rightarrow> bitboard" where
  "black_bishop_attacks self = make_bishop_attack (black_bishop_bitboard self)"

definition white_rook_attacks :: "Board \<Rightarrow> bitboard" where
  "white_rook_attacks self = make_rook_attack (white_rook_bitboard self)"

definition black_rook_attacks :: "Board \<Rightarrow> bitboard" where
  "black_rook_attacks self = make_rook_attack (black_rook_bitboard self)"

definition white_queen_attacks :: "Board \<Rightarrow> bitboard" where
  "white_queen_attacks self = make_queen_attack (white_queen_bitboard self)"

definition black_queen_attacks :: "Board \<Rightarrow> bitboard" where
  "black_queen_attacks self = make_queen_attack (black_queen_bitboard self)"

definition white_king_attacks :: "Board \<Rightarrow> bitboard" where
  "white_king_attacks self = make_king_attack (white_king_bitboard self)"

definition black_king_attacks :: "Board \<Rightarrow> bitboard" where
  "black_king_attacks self = make_king_attack (black_king_bitboard self)"

subsection \<open>Synchronisation\<close>

text \<open>
  \<open>update_board\<close> in two parts, as the source has them: the twelve occupancy fields are
  assigned from the engine's masks, then the ten attack fields from the properties of the
  board so updated. An exception would be the \<open>Inl\<close> branch of the result; the body has no
  \<open>raise\<close> and no test, so every path ends in \<open>Inr\<close>.
\<close>

datatype error = IntegrityError

definition assign_occupancy :: "Board \<Rightarrow> Board" where
  "assign_occupancy self =
     (let (black, white) = occupied_co (board self);
          e = board self
      in self\<lparr>black_pawn_bitboard := black AND pawns e,
              black_rook_bitboard := black AND rooks e,
              black_knight_bitboard := black AND knights e,
              black_bishop_bitboard := black AND bishops e,
              black_queen_bitboard := black AND queens e,
              black_king_bitboard := black AND kings e,
              white_pawn_bitboard := white AND pawns e,
              white_rook_bitboard := white AND rooks e,
              white_knight_bitboard := white AND knights e,
              white_bishop_bitboard := white AND bishops e,
              white_queen_bitboard := white AND queens e,
              white_king_bitboard := white AND kings e\<rparr>)"

definition assign_attacks :: "Board \<Rightarrow> Board" where
  "assign_attacks self =
     self\<lparr>white_knight_attacks_bitboard := white_knight_attacks self,
          black_knight_attacks_bitboard := black_knight_attacks self,
          white_bishop_attacks_bitboard := white_bishop_attacks self,
          black_bishop_attacks_bitboard := black_bishop_attacks self,
          white_rook_attacks_bitboard := white_rook_attacks self,
          black_rook_attacks_bitboard := black_rook_attacks self,
          white_queen_attacks_bitboard := white_queen_attacks self,
          black_queen_attacks_bitboard := black_queen_attacks self,
          white_king_attacks_bitboard := white_king_attacks self,
          black_king_attacks_bitboard := black_king_attacks self\<rparr>"

definition update_board :: "Board \<Rightarrow> error + Board" where
  "update_board self = Inr (assign_attacks (assign_occupancy self))"

section \<open>Reference notions for the properties\<close>

text \<open>
  The engine's report overlaps when, within one colour, two different piece kinds claim a
  common square.
\<close>

definition occupancy_overlaps :: "Engine \<Rightarrow> bool" where
  "occupancy_overlaps e =
     (let (black, white) = occupied_co e;
          kinds = [pawns e, rooks e, knights e, bishops e, queens e, kings e]
      in \<exists>i < 6. \<exists>j < i.
           (black AND kinds ! i) AND (black AND kinds ! j) \<noteq> 0
           \<or> (white AND kinds ! i) AND (white AND kinds ! j) \<noteq> 0)"

text \<open>A report in which the white pawn and the white rook both claim square 0.\<close>

definition overlap_engine :: Engine where
  "overlap_engine =
     \<lparr>occupied_co = (0, 1), pawns = 1, rooks = 1, knights = 0, bishops = 0, queens = 0,
      kings = 0\<rparr>"

definition stale_board :: Board where
  "stale_board =
     \<lparr>board = overlap_engine,
      black_pawn_bitboard = 0, black_rook_bitboard = 0, black_knight_bitboard = 0,
      black_bishop_bitboard = 0, black_queen_bitboard = 0, black_king_bitboard = 0,
      white_pawn_bitboard = 0, white_rook_bitboard = 0, white_knight_bitboard = 0,
      white_bishop_bitboard = 0, white_queen_bitboard = 0, white_king_bitboard = 0,
      white_knight_attacks_bitboard = 0, black_knight_attacks_bitboard = 0,
      white_bishop_attacks_bitboard = 0, black_bishop_attacks_bitboard = 0,
      white_rook_attacks_bitboard = 0, black_rook_attacks_bitboard = 0,
      white_queen_attacks_bitboard = 0, black_queen_attacks_bitboard = 0,
      white_king_attacks_bitboard = 0, black_king_attacks_bitboard = 0\<rparr>"

text \<open>
  The true ray from square \<open>s\<close> in the direction with file step \<open>df\<close> and rank step \<open>dr\<close>:
  the squares of the board whose file and rank are those of \<open>s\<close> moved by \<open>k\<close> steps, for
  some \<open>k\<close> from 1 to 7. \<open>ray_mask\<close> is the bitboard of that ray, computed square by
  square; \<open>squares\<close> are the 64 squares of the board.
\<close>

definition squares :: "int list" where
  "squares = [0..63]"

definition square_mask :: "int option \<Rightarrow> bitboard" where
  "square_mask t = (case t of None \<Rightarrow> 0 | Some q \<Rightarrow> push_bit (nat q) 1)"

definition ray_square :: "int \<Rightarrow> int \<Rightarrow> int \<Rightarrow> int \<Rightarrow> int option" where
  "ray_square df dr s k =
     (let f = s mod 8 + k * df; r = s div 8 + k * dr
      in if 0 \<le> f \<and> f \<le> 7 \<and> 0 \<le> r \<and> r \<le> 7 then Some (r * 8 + f) else None)"

definition ray_mask :: "int \<Rightarrow> int \<Rightarrow> int \<Rightarrow> bitboard" where
  "ray_mask df dr s =
     foldl (\<lambda>bb k. bb OR square_mask (ray_square df dr s k)) 0 [1, 2, 3, 4, 5, 6, 7]"

definition on_ray :: "int \<Rightarrow> int \<Rightarrow> int \<Rightarrow> int \<Rightarrow> bool" where
  "on_ray df dr s t \<longleftrightarrow>
     0 \<le> t \<and> t \<le> 63
     \<and> (\<exists>k\<in>{1..7}. t mod 8 = s mod 8 + k * df \<and> t div 8 = s div 8 + k * dr)"

section \<open>Shifting by a square number\<close>

lemma unat_uint64: "unat (uint64 n) = nat (n mod 18446744073709551616)"
  by (simp add: uint64_def unat_eq_nat_uint uint_word_of_int)

lemma lshift_uint64:
  "lshift a (uint64 n) =
     (if n mod 18446744073709551616 < 64
      then push_bit (nat (n mod 18446744073709551616)) a else 0)"
  by (simp add: lshift_def unat_uint64 nat_less_iff)

lemma lshift_uint64_on_board:
  assumes "0 \<le> n" "n \<le> 63"
  shows "lshift a (uint64 n) = push_bit (nat n) a"
  using assms by (simp add: lshift_uint64)

lemma lshift_uint64_off_board:
  assumes "n < 0 \<or> 63 < n" and "- 1000 \<le> n" and "n \<le> 1000"
  shows "lshift a (uint64 n) = 0"
proof -
  have "\<not> n mod 18446744073709551616 < 64"
  proof (cases "n < 0")
    case True
    have "(n + 18446744073709551616) mod 18446744073709551616 = n + 18446744073709551616"
      using True assms(2) by (intro mod_pos_pos_trivial) simp_all
    then have "n mod 18446744073709551616 = n + 18446744073709551616"
      by simp
    then show ?thesis
      using assms(2) by simp
  next
    case False
    then have "n mod 18446744073709551616 = n"
      using assms(3) by (intro mod_pos_pos_trivial) simp_all
    then show ?thesis
      using False assms(1) by simp
  qed
  then show ?thesis
    by (simp add: lshift_uint64)
qed

lemma bit_push_bit_one:
  "bit (push_bit n 1 :: 64 word) i \<longleftrightarrow> i = n \<and> n < 64"
  by (auto simp: bit_simps)

lemmas consts_defs = HOT_def File_hexA_def File_hexH_def File_hexB_def File_hexG_def
  File_A_def File_B_def File_G_def File_H_def File_squares_def

section \<open>Bit operations: set then clear\<close>

text \<open>
  C7. For every bitboard \<open>bb\<close> and every square \<open>s\<close> in \<open>[0,63]\<close>,
  \<open>clear_bit(set_bit(bb, s), s) == bb & ~(1 << s)\<close>: every bit other than \<open>s\<close> keeps the value
  it has in \<open>bb\<close>, and bit \<open>s\<close> is 0.
\<close>

theorem set_then_clear_bit:
  assumes "0 \<le> s" and "s \<le> 63"
  shows "clear_bit_bb (set_bit_bb bb s) s = bb AND NOT (push_bit (nat s) 1)
    \<and> (\<forall>i. i \<noteq> nat s \<longrightarrow> bit (clear_bit_bb (set_bit_bb bb s) s) i = bit bb i)
    \<and> \<not> bit (clear_bit_bb (set_bit_bb bb s) s) (nat s)"
proof -
  have sh: "lshift 1 (uint64 s) = push_bit (nat s) 1"
    using assms by (rule lshift_uint64_on_board)
  have "clear_bit_bb (set_bit_bb bb s) s = bb AND NOT (push_bit (nat s) 1)"
    by (simp add: clear_bit_bb_def set_bit_bb_def sh bit_eq_iff bit_simps) blast
  moreover have "\<forall>i. i \<noteq> nat s \<longrightarrow> bit (clear_bit_bb (set_bit_bb bb s) s) i = bit bb i"
    by (auto simp: clear_bit_bb_def set_bit_bb_def sh bit_simps dest: bit_imp_le_length)
  moreover have "\<not> bit (clear_bit_bb (set_bit_bb bb s) s) (nat s)"
    using assms by (simp add: clear_bit_bb_def set_bit_bb_def sh bit_simps)
  ultimately show ?thesis by blast
qed

theorem set_then_clear_bit_witness:
  "(0::int) \<le> 2 \<and> (2::int) \<le> 63 \<and> clear_bit_bb (set_bit_bb 5 2) 2 = 1
   \<and> bit (clear_bit_bb (set_bit_bb 5 2) 2) 0 = bit (5 :: 64 word) 0
   \<and> \<not> bit (clear_bit_bb (set_bit_bb 5 2) 2) 2"
  using set_then_clear_bit [of 2 5] by simp

section \<open>Jump pieces at the corner\<close>

lemma bit_squares_10_17:
  "bit (push_bit 10 1 OR push_bit 17 1 :: 64 word) i \<longleftrightarrow> i = 10 \<or> i = 17"
  by (simp only: bit_or_iff bit_push_bit_one) simp

lemma bit_squares_1_8_9:
  "bit (push_bit 1 1 OR push_bit 8 1 OR push_bit 9 1 :: 64 word) i
     \<longleftrightarrow> i = 1 \<or> i = 8 \<or> i = 9"
  by (simp only: bit_or_iff bit_push_bit_one) simp

text \<open>
  C4. The knight attack mask of square 0, \<open>gen_knight_attack(0)\<close>, is the bitboard with
  bits 10 and 17 set and no other bit set.
\<close>

theorem gen_knight_attack_corner:
  "gen_knight_attack 0 = push_bit 10 1 OR push_bit 17 1
   \<and> (\<forall>i. bit (gen_knight_attack 0) i \<longleftrightarrow> i = 10 \<or> i = 17)"
proof -
  have eq: "gen_knight_attack 0 = push_bit 10 1 OR push_bit 17 1"
    by (simp add: gen_knight_attack_def knight_step_def set_bit_bb_def lshift_uint64
        consts_defs)
  show ?thesis
    unfolding eq using bit_squares_10_17 by blast
qed

text \<open>
  C5. The king attack mask of square 0, \<open>gen_king_attack(0)\<close>, is the bitboard with bits
  1, 8 and 9 set and no other bit set.
\<close>

theorem gen_king_attack_corner:
  "gen_king_attack 0 = push_bit 1 1 OR push_bit 8 1 OR push_bit 9 1
   \<and> (\<forall>i. bit (gen_king_attack 0) i \<longleftrightarrow> i = 1 \<or> i = 8 \<or> i = 9)"
proof -
  have eq: "gen_king_attack 0 = push_bit 1 1 OR push_bit 8 1 OR push_bit 9 1"
    by (simp add: gen_king_attack_def lshift_uint64 consts_defs)
  show ?thesis
    unfolding eq using bit_squares_1_8_9 by blast
qed

section \<open>Attack aggregation\<close>

lemma foldl_or_acc:
  "foldl (\<lambda>acc sq. acc OR g sq) z xs = z OR foldl (\<lambda>acc sq. acc OR g sq) (0 :: bitboard) xs"
proof (induction xs arbitrary: z)
  case Nil
  show ?case by simp
next
  case (Cons x xs)
  have "foldl (\<lambda>acc sq. acc OR g sq) z (x # xs) = (z OR g x) OR foldl (\<lambda>acc sq. acc OR g sq) 0 xs"
    using Cons.IH [of "z OR g x"] by simp
  also have "\<dots> = z OR (g x OR foldl (\<lambda>acc sq. acc OR g sq) 0 xs)"
    by (simp add: ac_simps)
  also have "g x OR foldl (\<lambda>acc sq. acc OR g sq) 0 xs = foldl (\<lambda>acc sq. acc OR g sq) 0 (x # xs)"
    using Cons.IH [of "0 OR g x"] by simp
  finally show ?case .
qed

lemma occupied_or:
  "((a OR b) AND m \<noteq> (0 :: bitboard)) \<longleftrightarrow> (a AND m \<noteq> 0) \<or> (b AND m \<noteq> 0)"
  by (auto simp: bit.conj_disj_distrib2 or_eq_0_iff)

lemma aggregate_or:
  "foldl (\<lambda>acc sq. acc OR g sq) (0 :: bitboard)
       (filter (\<lambda>sq. (a OR b) AND lshift 1 (uint64 sq) \<noteq> 0) xs)
   = foldl (\<lambda>acc sq. acc OR g sq) 0 (filter (\<lambda>sq. a AND lshift 1 (uint64 sq) \<noteq> 0) xs)
     OR foldl (\<lambda>acc sq. acc OR g sq) 0 (filter (\<lambda>sq. b AND lshift 1 (uint64 sq) \<noteq> 0) xs)"
proof (induction xs)
  case Nil
  show ?case by simp
next
  case (Cons x xs)
  let ?F = "\<lambda>c. foldl (\<lambda>acc sq. acc OR g sq) 0 (filter (\<lambda>sq. c AND lshift 1 (uint64 sq) \<noteq> 0) xs)"
  have pull: "foldl (\<lambda>acc sq. acc OR g sq) (g x) ys = g x OR foldl (\<lambda>acc sq. acc OR g sq) 0 ys" for ys
    by (rule foldl_or_acc)
  show ?case
    using Cons.IH
    by (simp add: occupied_or pull) (auto simp: ac_simps)
qed

lemma aggregate_empty:
  "filter (\<lambda>sq. (0 :: bitboard) AND lshift 1 (uint64 sq) \<noteq> 0) xs = []"
  by simp

text \<open>
  C10. Each aggregator (\<open>make_knight_attack\<close>, \<open>make_bishop_attack\<close>, \<open>make_rook_attack\<close>,
  \<open>make_queen_attack\<close>, \<open>make_king_attack\<close>) maps the union of two occupancies to the
  union of their attack masks, and the empty occupancy to the empty mask. The functions
  are total: no input raises.
\<close>

theorem make_attack_union:
  "make_knight_attack (a OR b) = make_knight_attack a OR make_knight_attack b
   \<and> make_bishop_attack (a OR b) = make_bishop_attack a OR make_bishop_attack b
   \<and> make_rook_attack (a OR b) = make_rook_attack a OR make_rook_attack b
   \<and> make_queen_attack (a OR b) = make_queen_attack a OR make_queen_attack b
   \<and> make_king_attack (a OR b) = make_king_attack a OR make_king_attack b
   \<and> make_knight_attack 0 = 0 \<and> make_bishop_attack 0 = 0 \<and> make_rook_attack 0 = 0
   \<and> make_queen_attack 0 = 0 \<and> make_king_attack 0 = 0"
  unfolding make_knight_attack_def make_bishop_attack_def make_rook_attack_def
    make_queen_attack_def make_king_attack_def get_knight_squares_def get_bishop_squares_def
    get_rook_squares_def get_queen_squares_def get_king_squares_def aggregate_empty
  by (intro conjI aggregate_or) simp_all

section \<open>Pawn attacks\<close>

lemma File_hexA_bits:
  "File_hexA = push_bit 0 1 OR push_bit 8 1 OR push_bit 16 1 OR push_bit 24 1
     OR push_bit 32 1 OR push_bit 40 1 OR push_bit 48 1 OR push_bit 56 1"
  by (simp add: File_hexA_def)

lemma File_hexH_bits:
  "File_hexH = push_bit 7 1 OR push_bit 15 1 OR push_bit 23 1 OR push_bit 31 1
     OR push_bit 39 1 OR push_bit 47 1 OR push_bit 55 1 OR push_bit 63 1"
  by (simp add: File_hexH_def)

lemma bit_File_hexA: "bit File_hexA i \<longleftrightarrow> i < 64 \<and> i mod 8 = 0"
  unfolding File_hexA_bits
  by (simp only: bit_or_iff bit_push_bit_one) presburger

lemma bit_File_hexH: "bit File_hexH i \<longleftrightarrow> i < 64 \<and> i mod 8 = 7"
  unfolding File_hexH_bits
  by (simp only: bit_or_iff bit_push_bit_one) presburger

text \<open>
  C8. The white pawn attack mask is the occupancy shifted left by 9 with file A masked
  off, united with the occupancy shifted left by 7 with file H masked off; the black pawn
  attack mask is the occupancy shifted right by 7 with file A masked off, united with the
  occupancy shifted right by 9 with file H masked off. Bit by bit: square \<open>i\<close> is attacked
  by a white pawn iff a white pawn stands on \<open>i - 9\<close> and \<open>i\<close> is not on file A, or on
  \<open>i - 7\<close> and \<open>i\<close> is not on file H.
\<close>

theorem pawn_attacks_masked_shifts:
  "white_pawn_attacks self =
     (push_bit 9 (white_pawn_bitboard self) AND NOT 0x0101010101010101)
       OR (push_bit 7 (white_pawn_bitboard self) AND NOT 0x8080808080808080)
   \<and> black_pawn_attacks self =
     (drop_bit 7 (black_pawn_bitboard self) AND NOT 0x0101010101010101)
       OR (drop_bit 9 (black_pawn_bitboard self) AND NOT 0x8080808080808080)
   \<and> (\<forall>i. bit (white_pawn_attacks self) i \<longleftrightarrow>
          i < 64 \<and> (9 \<le> i \<and> i mod 8 \<noteq> 0 \<and> bit (white_pawn_bitboard self) (i - 9)
                   \<or> 7 \<le> i \<and> i mod 8 \<noteq> 7 \<and> bit (white_pawn_bitboard self) (i - 7)))
   \<and> (\<forall>i. bit (black_pawn_attacks self) i \<longleftrightarrow>
          i mod 8 \<noteq> 0 \<and> bit (black_pawn_bitboard self) (i + 7)
          \<or> i mod 8 \<noteq> 7 \<and> bit (black_pawn_bitboard self) (i + 9))"
proof -
  have sh: "lshift x (uint64 9) = push_bit 9 x" "lshift x (uint64 7) = push_bit 7 x"
    "rshift x (uint64 9) = drop_bit 9 x" "rshift x (uint64 7) = drop_bit 7 x" for x
    by (simp_all add: lshift_def rshift_def uint64_def)
  have w: "white_pawn_attacks self =
     (push_bit 9 (white_pawn_bitboard self) AND NOT File_hexA)
       OR (push_bit 7 (white_pawn_bitboard self) AND NOT File_hexH)"
    by (simp add: white_pawn_attacks_def white_pawn_east_attacks_def
        white_pawn_west_attacks_def sh)
  have b: "black_pawn_attacks self =
     (drop_bit 7 (black_pawn_bitboard self) AND NOT File_hexA)
       OR (drop_bit 9 (black_pawn_bitboard self) AND NOT File_hexH)"
    by (simp add: black_pawn_attacks_def black_pawn_east_attacks_def
        black_pawn_west_attacks_def sh)
  have wb: "bit (white_pawn_attacks self) i \<longleftrightarrow>
          i < 64 \<and> (9 \<le> i \<and> i mod 8 \<noteq> 0 \<and> bit (white_pawn_bitboard self) (i - 9)
                   \<or> 7 \<le> i \<and> i mod 8 \<noteq> 7 \<and> bit (white_pawn_bitboard self) (i - 7))" for i
    unfolding w by (auto simp: bit_simps bit_File_hexA bit_File_hexH)
  have bb: "bit (black_pawn_attacks self) i \<longleftrightarrow>
          i mod 8 \<noteq> 0 \<and> bit (black_pawn_bitboard self) (i + 7)
          \<or> i mod 8 \<noteq> 7 \<and> bit (black_pawn_bitboard self) (i + 9)" for i
    unfolding b by (auto simp: bit_simps bit_File_hexA bit_File_hexH ac_simps dest: bit_imp_le_length)
  show ?thesis
    using w b wb bb unfolding File_hexA_def File_hexH_def by blast
qed

section \<open>Synchronisation with the engine\<close>

lemma overlap_engine_overlaps: "occupancy_overlaps overlap_engine"
proof -
  have "(1::nat) < 6 \<and> (0::nat) < 1" by simp
  then show ?thesis
    unfolding occupancy_overlaps_def overlap_engine_def
    by (simp only: Let_def case_prod_conv Engine.simps) (rule exI [of _ 1], simp)
qed

text \<open>
  C3, as stated, fails: with a report in which two white piece kinds claim square 0,
  \<open>update_board\<close> returns normally and the occupancy fields hold the overlapping masks
  instead of their former values.
\<close>

theorem update_board_overlap_counterexample:
  "occupancy_overlaps (board stale_board)
   \<and> \<not> isl (update_board stale_board)
   \<and> white_pawn_bitboard (projr (update_board stale_board)) = 1
   \<and> white_rook_bitboard (projr (update_board stale_board)) = 1
   \<and> white_pawn_bitboard stale_board = 0
   \<and> white_rook_bitboard stale_board = 0"
proof -
  have "board stale_board = overlap_engine"
    by (simp add: stale_board_def)
  then have "occupancy_overlaps (board stale_board)"
    using overlap_engine_overlaps by simp
  moreover have "white_pawn_bitboard (assign_attacks (assign_occupancy stale_board)) = 1"
    "white_rook_bitboard (assign_attacks (assign_occupancy stale_board)) = 1"
    by (simp_all add: assign_attacks_def assign_occupancy_def stale_board_def overlap_engine_def Let_def)
  moreover have "white_pawn_bitboard stale_board = 0" "white_rook_bitboard stale_board = 0"
    by (simp_all add: stale_board_def)
  ultimately show ?thesis
    by (simp add: update_board_def)
qed

text \<open>
  C3, amended. \<open>update_board\<close> performs no integrity check: for every report of the
  engine, overlapping or not, it returns normally; each of the twelve occupancy fields
  becomes the colour's occupancy intersected with the piece kind's mask, and each of the
  ten attack fields the aggregated attack mask of the new occupancy.
\<close>

theorem update_board_always_succeeds:
  "\<exists>b. update_board self = Inr b
     \<and> board b = board self
     \<and> black_pawn_bitboard b = fst (occupied_co (board self)) AND pawns (board self)
     \<and> black_rook_bitboard b = fst (occupied_co (board self)) AND rooks (board self)
     \<and> black_knight_bitboard b = fst (occupied_co (board self)) AND knights (board self)
     \<and> black_bishop_bitboard b = fst (occupied_co (board self)) AND bishops (board self)
     \<and> black_queen_bitboard b = fst (occupied_co (board self)) AND queens (board self)
     \<and> black_king_bitboard b = fst (occupied_co (board self)) AND kings (board self)
     \<and> white_pawn_bitboard b = snd (occupied_co (board self)) AND pawns (board self)
     \<and> white_rook_bitboard b = snd (occupied_co (board self)) AND rooks (board self)
     \<and> white_knight_bitboard b = snd (occupied_co (board self)) AND knights (board self)
     \<and> white_bishop_bitboard b = snd (occupied_co (board self)) AND bishops (board self)
     \<and> white_queen_bitboard b = snd (occupied_co (board self)) AND queens (board self)
     \<and> white_king_bitboard b = snd (occupied_co (board self)) AND kings (board self)
     \<and> white_knight_attacks_bitboard b = make_knight_attack (white_knight_bitboard b)
     \<and> black_knight_attacks_bitboard b = make_knight_attack (black_knight_bitboard b)
     \<and> white_bishop_attacks_bitboard b = make_bishop_attack (white_bishop_bitboard b)
     \<and> black_bishop_attacks_bitboard b = make_bishop_attack (black_bishop_bitboard b)
     \<and> white_rook_attacks_bitboard b = make_rook_attack (white_rook_bitboard b)
     \<and> black_rook_attacks_bitboard b = make_rook_attack (black_rook_bitboard b)
     \<and> white_queen_attacks_bitboard b = make_queen_attack (white_queen_bitboard b)
     \<and> black_queen_attacks_bitboard b = make_queen_attack (black_queen_bitboard b)
     \<and> white_king_attacks_bitboard b = make_king_attack (white_king_bitboard b)
     \<and> black_king_attacks_bitboard b = make_king_attack (black_king_bitboard b)"
  by (simp add: update_board_def assign_attacks_def assign_occupancy_def split_beta Let_def
      white_knight_attacks_def black_knight_attacks_def white_bishop_attacks_def
      black_bishop_attacks_def white_rook_attacks_def black_rook_attacks_def
      white_queen_attacks_def black_queen_attacks_def white_king_attacks_def
      black_king_attacks_def)

section \<open>The true rays\<close>

lemma squares_iff: "s \<in> set squares \<longleftrightarrow> 0 \<le> s \<and> s \<le> 63"
  by (simp add: squares_def)

lemma squares_enum:
  "squares =
     [0, 1, 2, 3, 4, 5, 6, 7] @
     [8, 9, 10, 11, 12, 13, 14, 15] @
     [16, 17, 18, 19, 20, 21, 22, 23] @
     [24, 25, 26, 27, 28, 29, 30, 31] @
     [32, 33, 34, 35, 36, 37, 38, 39] @
     [40, 41, 42, 43, 44, 45, 46, 47] @
     [48, 49, 50, 51, 52, 53, 54, 55] @
     [56, 57, 58, 59, 60, 61, 62, 63]"
  by (simp add: squares_def upto_rec1)

lemma ray_square_Some_iff:
  "ray_square df dr s k = Some t \<longleftrightarrow>
     0 \<le> t \<and> t \<le> 63 \<and> t mod 8 = s mod 8 + k * df \<and> t div 8 = s div 8 + k * dr"
proof -
  define f where "f = s mod 8 + k * df"
  define r where "r = s div 8 + k * dr"
  have "(if 0 \<le> f \<and> f \<le> 7 \<and> 0 \<le> r \<and> r \<le> 7 then Some (r * 8 + f) else None) = Some t
    \<longleftrightarrow> 0 \<le> t \<and> t \<le> 63 \<and> t mod 8 = f \<and> t div 8 = r"
  proof (cases "0 \<le> f \<and> f \<le> 7 \<and> 0 \<le> r \<and> r \<le> 7")
    case True
    then have m: "(r * 8 + f) mod 8 = f" and d: "(r * 8 + f) div 8 = r"
      by simp_all
    have recompose: "t = r * 8 + f" if "t mod 8 = f" "t div 8 = r"
      using that div_mult_mod_eq [of t 8] by simp
    have "0 \<le> r * 8 + f" "r * 8 + f \<le> 63"
      using True by linarith+
    with True m d recompose show ?thesis
      by auto
  next
    case False
    have "0 \<le> t mod 8" "t mod 8 \<le> 7"
      by simp_all
    moreover have "0 \<le> t div 8 \<and> t div 8 \<le> 7" if "0 \<le> t" "t \<le> 63"
      using that by presburger
    ultimately show ?thesis
      using False by auto
  qed
  then show ?thesis
    by (simp only: ray_square_def Let_def f_def r_def)
qed

lemma bit_square_mask_ray:
  "bit (square_mask (ray_square df dr s k)) i \<longleftrightarrow> ray_square df dr s k = Some (int i)"
proof (cases "ray_square df dr s k")
  case None
  then show ?thesis by (simp add: square_mask_def)
next
  case (Some q)
  then have "0 \<le> q" "q \<le> 63"
    by (simp_all add: ray_square_Some_iff)
  then have "(i = nat q \<and> nat q < 64) \<longleftrightarrow> q = int i"
    by auto
  with Some show ?thesis
    by (simp only: square_mask_def option.case bit_push_bit_one option.inject)
qed

lemma int_1_7: "k \<in> {1..7} \<longleftrightarrow> k = 1 \<or> k = 2 \<or> k = 3 \<or> k = 4 \<or> k = 5 \<or> k = 6 \<or> k = (7::int)"
  by (simp only: atLeastAtMost_iff) presburger

lemma bex_1_7:
  "(\<exists>k\<in>{1..7::int}. P k) \<longleftrightarrow> P 1 \<or> P 2 \<or> P 3 \<or> P 4 \<or> P 5 \<or> P 6 \<or> P 7"
  unfolding Bex_def int_1_7 by blast

lemma bit_ray_mask: "bit (ray_mask df dr s) i \<longleftrightarrow> on_ray df dr s (int i)"
proof -
  have "bit (ray_mask df dr s) i \<longleftrightarrow> (\<exists>k\<in>{1..7}. ray_square df dr s k = Some (int i))"
    unfolding ray_mask_def
    by (simp only: foldl.simps bit_or_iff bit_square_mask_ray bex_1_7) simp
  also have "\<dots> \<longleftrightarrow> on_ray df dr s (int i)"
    by (auto simp: on_ray_def ray_square_Some_iff)
  finally show ?thesis .
qed

lemmas ray_eval = lshift_uint64 consts_defs set_bit_bb_def clear_bit_bb_def
  northeast_loop.simps southeast_loop.simps northwest_loop.simps southwest_loop.simps
  east_loop.simps west_loop.simps ray_mask_def ray_square_def square_mask_def

section \<open>The eight rays on every square\<close>

text \<open>Each ray function is run on each of the 64 squares and compared with the true ray.\<close>

lemma get_north_ray_all:
  "list_all (\<lambda>s. get_north_ray 0 s = ray_mask 0 1 s) squares"
  unfolding squares_enum
  apply (simp only: list.pred_inject list_all_append simp_thms)
  apply (simp add: get_north_ray_def ray_eval)
  done

lemma get_south_ray_all:
  "list_all (\<lambda>s. get_south_ray 0 s = ray_mask 0 (- 1) s) squares"
  unfolding squares_enum
  apply (simp only: list.pred_inject list_all_append simp_thms)
  apply (simp add: get_south_ray_def ray_eval)
  done

lemma get_east_ray_all:
  "list_all (\<lambda>s. get_east_ray 0 s = ray_mask 1 0 s) squares"
  unfolding squares_enum
  apply (simp only: list.pred_inject list_all_append simp_thms)
  apply (simp add: get_east_ray_def ray_eval)
  done

lemma get_west_ray_all:
  "list_all (\<lambda>s. get_west_ray 0 s = ray_mask (- 1) 0 s) squares"
  unfolding squares_enum
  apply (simp only: list.pred_inject list_all_append simp_thms)
  apply (simp add: get_west_ray_def ray_eval)
  done

lemma get_northeast_ray_all:
  "list_all (\<lambda>s. get_northeast_ray 0 s = ray_mask 1 1 s) squares"
  unfolding squares_enum
  apply (simp only: list.pred_inject list_all_append simp_thms)
  apply (simp add: get_northeast_ray_def ray_eval)
  done

lemma get_northwest_ray_all:
  "list_all (\<lambda>s. get_northwest_ray 0 s = ray_mask (- 1) 1 s) squares"
  unfolding squares_enum
  apply (simp only: list.pred_inject list_all_append simp_thms)
  apply (simp add: get_northwest_ray_def ray_eval)
  done

lemma get_southeast_ray_all:
  "list_all (\<lambda>s. get_southeast_ray 0 s = ray_mask 1 (- 1) s) squares"
  unfolding squares_enum
  apply (simp only: list.pred_inject list_all_append simp_thms)
  apply (simp add: get_southeast_ray_def ray_eval)
  done

lemma get_southwest_ray_all:
  "list_all (\<lambda>s. get_southwest_ray 0 s = ray_mask (- 1) (- 1) s) squares"
  unfolding squares_enum
  apply (simp only: list.pred_inject list_all_append simp_thms)
  apply (simp add: get_southwest_ray_def ray_eval)
  done

lemma get_north_ray_mask:
  assumes "0 \<le> s" and "s \<le> 63"
  shows "get_north_ray 0 s = ray_mask 0 1 s"
  using assms get_north_ray_all by (simp add: list_all_iff squares_iff)

lemma get_south_ray_mask:
  assumes "0 \<le> s" and "s \<le> 63"
  shows "get_south_ray 0 s = ray_mask 0 (- 1) s"
  using assms get_south_ray_all by (simp add: list_all_iff squares_iff)

lemma get_east_ray_mask:
  assumes "0 \<le> s" and "s \<le> 63"
  shows "get_east_ray 0 s = ray_mask 1 0 s"
  using assms get_east_ray_all by (simp add: list_all_iff squares_iff)

lemma get_west_ray_mask:
  assumes "0 \<le> s" and "s \<le> 63"
  shows "get_west_ray 0 s = ray_mask (- 1) 0 s"
  using assms get_west_ray_all by (simp add: list_all_iff squares_iff)

lemma get_northeast_ray_mask:
  assumes "0 \<le> s" and "s \<le> 63"
  shows "get_northeast_ray 0 s = ray_mask 1 1 s"
  using assms get_northeast_ray_all by (simp add: list_all_iff squares_iff)

lemma get_northwest_ray_mask:
  assumes "0 \<le> s" and "s \<le> 63"
  shows "get_northwest_ray 0 s = ray_mask (- 1) 1 s"
  using assms get_northwest_ray_all by (simp add: list_all_iff squares_iff)

lemma get_southeast_ray_mask:
  assumes "0 \<le> s" and "s \<le> 63"
  shows "get_southeast_ray 0 s = ray_mask 1 (- 1) s"
  using assms get_southeast_ray_all by (simp add: list_all_iff squares_iff)

lemma get_southwest_ray_mask:
  assumes "0 \<le> s" and "s \<le> 63"
  shows "get_southwest_ray 0 s = ray_mask (- 1) (- 1) s"
  using assms get_southwest_ray_all by (simp add: list_all_iff squares_iff)

lemmas ray_masks = get_north_ray_mask get_south_ray_mask get_east_ray_mask get_west_ray_mask get_northeast_ray_mask get_northwest_ray_mask get_southeast_ray_mask get_southwest_ray_mask

lemma ray_mask_corner:
  "ray_mask 1 1 0 = push_bit 9 1 OR push_bit 18 1 OR push_bit 27 1 OR push_bit 36 1 OR push_bit 45 1 OR push_bit 54 1 OR push_bit 63 1"
  "ray_mask 0 (- 1) 0 = 0" "ray_mask (- 1) 0 0 = 0" "ray_mask (- 1) (- 1) 0 = 0"
  "ray_mask 1 (- 1) 0 = 0" "ray_mask (- 1) 1 0 = 0"
  by (simp_all add: ray_mask_def ray_square_def square_mask_def)

text \<open>
  C1. Ray casting never wraps around the board edges: for every origin square \<open>s\<close> in
  \<open>[0,63]\<close> each of the eight ray functions, started on the empty bitboard, returns exactly
  the squares of the true ray from \<open>s\<close> in its direction, all of them on the board. From
  the corner square 0 the northeast ray is the seven squares 9, 18, ..., 63, and the south,
  west, southwest, southeast and northwest rays are empty.
\<close>

theorem rays_never_wrap:
  assumes "0 \<le> s" and "s \<le> 63"
  shows "(\<forall>i. bit (get_north_ray 0 s) i \<longleftrightarrow> on_ray 0 1 s (int i)) \<and>
    (\<forall>i. bit (get_south_ray 0 s) i \<longleftrightarrow> on_ray 0 (- 1) s (int i)) \<and>
    (\<forall>i. bit (get_east_ray 0 s) i \<longleftrightarrow> on_ray 1 0 s (int i)) \<and>
    (\<forall>i. bit (get_west_ray 0 s) i \<longleftrightarrow> on_ray (- 1) 0 s (int i)) \<and>
    (\<forall>i. bit (get_northeast_ray 0 s) i \<longleftrightarrow> on_ray 1 1 s (int i)) \<and>
    (\<forall>i. bit (get_northwest_ray 0 s) i \<longleftrightarrow> on_ray (- 1) 1 s (int i)) \<and>
    (\<forall>i. bit (get_southeast_ray 0 s) i \<longleftrightarrow> on_ray 1 (- 1) s (int i)) \<and>
    (\<forall>i. bit (get_southwest_ray 0 s) i \<longleftrightarrow> on_ray (- 1) (- 1) s (int i)) \<and>
    get_northeast_ray 0 0 = push_bit 9 1 OR push_bit 18 1 OR push_bit 27 1 OR push_bit 36 1 OR push_bit 45 1 OR push_bit 54 1 OR push_bit 63 1 \<and>
    get_south_ray 0 0 = 0 \<and> get_west_ray 0 0 = 0 \<and> get_southwest_ray 0 0 = 0 \<and>
    get_southeast_ray 0 0 = 0 \<and> get_northwest_ray 0 0 = 0"
proof -
  have corner: "(0::int) \<le> 0" "(0::int) \<le> 63"
    by simp_all
  show ?thesis
    by (simp only: ray_masks [OF assms] ray_masks [OF corner] bit_ray_mask ray_mask_corner
        simp_thms)
qed

theorem rays_never_wrap_witness:
  "(\<forall>i. bit (get_north_ray 0 27) i \<longleftrightarrow> on_ray 0 1 27 (int i)) \<and>
    (\<forall>i. bit (get_south_ray 0 27) i \<longleftrightarrow> on_ray 0 (- 1) 27 (int i)) \<and>
    (\<forall>i. bit (get_east_ray 0 27) i \<longleftrightarrow> on_ray 1 0 27 (int i)) \<and>
    (\<forall>i. bit (get_west_ray 0 27) i \<longleftrightarrow> on_ray (- 1) 0 27 (int i)) \<and>
    (\<forall>i. bit (get_northeast_ray 0 27) i \<longleftrightarrow> on_ray 1 1 27 (int i)) \<and>
    (\<forall>i. bit (get_northwest_ray 0 27) i \<longleftrightarrow> on_ray (- 1) 1 27 (int i)) \<and>
    (\<forall>i. bit (get_southeast_ray 0 27) i \<longleftrightarrow> on_ray 1 (- 1) 27 (int i)) \<and>
    (\<forall>i. bit (get_southwest_ray 0 27) i \<longleftrightarrow> on_ray (- 1) (- 1) 27 (int i))"
  using rays_never_wrap [of 27] by simp

section \<open>Vertical rays\<close>

lemma on_ray_north:
  assumes "0 \<le> s"
  shows "on_ray 0 1 s t \<longleftrightarrow> (\<exists>k\<ge>1. t = s + 8 * k \<and> t \<le> 63)"
proof
  assume "on_ray 0 1 s t"
  then obtain k where k: "1 \<le> k" "t mod 8 = s mod 8" "t div 8 = s div 8 + k" and t: "t \<le> 63"
    by (auto simp: on_ray_def)
  have "t = 8 * (t div 8) + t mod 8" by simp
  also have "\<dots> = 8 * (s div 8) + s mod 8 + 8 * k"
    using k by simp
  also have "\<dots> = s + 8 * k" by simp
  finally show "\<exists>k\<ge>1. t = s + 8 * k \<and> t \<le> 63"
    using k(1) t by blast
next
  assume "\<exists>k\<ge>1. t = s + 8 * k \<and> t \<le> 63"
  then obtain k where k: "1 \<le> k" "t = s + 8 * k" "t \<le> 63"
    by blast
  have "k \<le> 7" "0 \<le> t"
    using k assms by linarith+
  moreover have "t mod 8 = s mod 8 + k * 0" "t div 8 = s div 8 + k * 1"
    using k(2) by simp_all
  ultimately show "on_ray 0 1 s t"
    unfolding on_ray_def using k(1,3) by auto
qed

lemma on_ray_south:
  assumes "s \<le> 63"
  shows "on_ray 0 (- 1) s t \<longleftrightarrow> (\<exists>k\<ge>1. t = s - 8 * k \<and> 0 \<le> t)"
proof
  assume "on_ray 0 (- 1) s t"
  then obtain k where k: "1 \<le> k" "t mod 8 = s mod 8" "t div 8 = s div 8 - k" and t: "0 \<le> t"
    by (auto simp: on_ray_def)
  have "t = 8 * (t div 8) + t mod 8" by simp
  also have "\<dots> = 8 * (s div 8) + s mod 8 - 8 * k"
    using k by simp
  also have "\<dots> = s - 8 * k" by simp
  finally show "\<exists>k\<ge>1. t = s - 8 * k \<and> 0 \<le> t"
    using k(1) t by blast
next
  assume "\<exists>k\<ge>1. t = s - 8 * k \<and> 0 \<le> t"
  then obtain k where k: "1 \<le> k" "t = s - 8 * k" "0 \<le> t"
    by blast
  have "k \<le> 7" "t \<le> 63"
    using k assms by linarith+
  moreover have "t = s + 8 * (- k)"
    using k(2) by simp
  then have "t mod 8 = s mod 8 + k * 0" "t div 8 = s div 8 + k * (- 1)"
    by (simp_all del: mult_minus_right)
  ultimately show "on_ray 0 (- 1) s t"
    unfolding on_ray_def using k(1,3) by auto
qed

text \<open>
  C2. For every origin square \<open>s\<close> in \<open>[0,63]\<close>, \<open>get_north_ray\<close> returns exactly the squares
  \<open>s + 8\<close>, \<open>s + 16\<close>, ... up to 63 and \<open>get_south_ray\<close> exactly the squares \<open>s - 8\<close>,
  \<open>s - 16\<close>, ... down to 0. An iteration whose index is 64 or more, or negative, leaves
  the bitboard as it is: no bit outside \<open>[0,63]\<close> is touched.
\<close>

theorem vertical_rays:
  assumes "0 \<le> s" and "s \<le> 63"
  shows "(\<forall>i. bit (get_north_ray 0 s) i \<longleftrightarrow> (\<exists>k\<ge>1. int i = s + 8 * k \<and> int i \<le> 63))
    \<and> (\<forall>i. bit (get_south_ray 0 s) i \<longleftrightarrow> (\<exists>k\<ge>1. int i = s - 8 * k))
    \<and> (\<forall>bb. \<forall>k\<in>{0..7}. 63 < s + 8 * k \<longrightarrow> set_bit_bb bb (s + 8 * k) = bb)
    \<and> (\<forall>bb. \<forall>k\<in>{0..7}. s - 8 * k < 0 \<longrightarrow> set_bit_bb bb (s - 8 * k) = bb)"
proof -
  have "bit (get_north_ray 0 s) i \<longleftrightarrow> (\<exists>k\<ge>1. int i = s + 8 * k \<and> int i \<le> 63)" for i
    by (simp only: get_north_ray_mask [OF assms] bit_ray_mask on_ray_north [OF assms(1)])
  moreover have "bit (get_south_ray 0 s) i \<longleftrightarrow> (\<exists>k\<ge>1. int i = s - 8 * k)" for i
    by (simp only: get_south_ray_mask [OF assms] bit_ray_mask on_ray_south [OF assms(2)])
      simp
  moreover have "set_bit_bb bb (s + 8 * k) = bb" if "k \<in> {0..7}" "63 < s + 8 * k" for bb k
  proof -
    have "lshift 1 (uint64 (s + 8 * k)) = 0"
      using that assms by (intro lshift_uint64_off_board) auto
    then show ?thesis by (simp add: set_bit_bb_def)
  qed
  moreover have "set_bit_bb bb (s - 8 * k) = bb" if "k \<in> {0..7}" "s - 8 * k < 0" for bb k
  proof -
    have "lshift 1 (uint64 (s - 8 * k)) = 0"
      using that assms by (intro lshift_uint64_off_board) auto
    then show ?thesis by (simp add: set_bit_bb_def)
  qed
  ultimately show ?thesis by blast
qed

theorem vertical_rays_witness:
  "(\<forall>i. bit (get_north_ray 0 27) i \<longleftrightarrow> (\<exists>k\<ge>1. int i = 27 + 8 * k \<and> int i \<le> 63))
   \<and> (\<forall>i. bit (get_south_ray 0 27) i \<longleftrightarrow> (\<exists>k\<ge>1. int i = 27 - 8 * k))
   \<and> set_bit_bb 5 (27 + 8 * 5) = 5
   \<and> set_bit_bb 5 (27 - 8 * 4) = 5"
proof -
  have "(5::int) \<in> {0..7}" "(4::int) \<in> {0..7}" "(63::int) < 27 + 8 * 5" "(27::int) - 8 * 4 < 0"
    by simp_all
  then show ?thesis
    using vertical_rays [of 27] by fastforce
qed

section \<open>Rays with an accumulator\<close>

lemma clear_bit_bb_or:
  "clear_bit_bb (a OR b) s = clear_bit_bb a s OR clear_bit_bb b s"
  by (simp add: clear_bit_bb_def bit.conj_disj_distrib2)

lemma clear_bit_bb_idem:
  "clear_bit_bb (clear_bit_bb a s) s = clear_bit_bb a s"
  by (simp add: clear_bit_bb_def and.assoc)

lemma clear_bit_bb_zero: "clear_bit_bb 0 s = 0"
  by (simp add: clear_bit_bb_def)

lemma west_loop_acc:
  "west_loop bb sq = (bb OR fst (west_loop 0 sq), snd (west_loop 0 sq))"
proof -
  have "\<forall>b. west_loop b sq = (b OR fst (west_loop 0 sq), snd (west_loop 0 sq))"
  proof (rule west_loop.induct
      [where P = "\<lambda>_ q. \<forall>b. west_loop b q = (b OR fst (west_loop 0 q), snd (west_loop 0 q))"
        and ?a0.0 = bb])
    fix bitboard :: bitboard and from_square :: int
    assume IH: "from_square mod 8 \<noteq> 0 \<Longrightarrow>
      \<forall>b. west_loop b (from_square - 1)
        = (b OR fst (west_loop 0 (from_square - 1)), snd (west_loop 0 (from_square - 1)))"
    show "\<forall>b. west_loop b from_square
        = (b OR fst (west_loop 0 from_square), snd (west_loop 0 from_square))"
    proof (cases "from_square mod 8 \<noteq> 0")
      case True
      let ?m = "lshift HOT (uint64 from_square)"
      have step: "west_loop b from_square = west_loop (b OR ?m) (from_square - 1)" for b
        using True by (subst west_loop.simps) simp
      have ih: "west_loop (b OR ?m) (from_square - 1)
          = ((b OR ?m) OR fst (west_loop 0 (from_square - 1)), snd (west_loop 0 (from_square - 1)))"
        for b
        using IH [OF True] by blast
      have unfolded: "west_loop b from_square
          = (b OR (?m OR fst (west_loop 0 (from_square - 1))), snd (west_loop 0 (from_square - 1)))"
        for b
        by (simp only: step ih or.assoc)
      show ?thesis
        by (simp only: unfolded fst_conv snd_conv or.left_neutral simp_thms)
    next
      case False
      then have "west_loop b from_square = (b, from_square)" for b
        by (subst west_loop.simps) auto
      then show ?thesis by simp
    qed
  qed
  then show ?thesis by blast
qed

lemma east_loop_acc:
  "east_loop bb sq = (bb OR fst (east_loop 0 sq), snd (east_loop 0 sq))"
proof -
  have "\<forall>b. east_loop b sq = (b OR fst (east_loop 0 sq), snd (east_loop 0 sq))"
  proof (rule east_loop.induct
      [where P = "\<lambda>_ q. \<forall>b. east_loop b q = (b OR fst (east_loop 0 q), snd (east_loop 0 q))"
        and ?a0.0 = bb])
    fix bitboard :: bitboard and from_square :: int
    assume IH: "from_square mod 8 \<noteq> 0 \<Longrightarrow>
      \<forall>b. east_loop b (from_square + 1)
        = (b OR fst (east_loop 0 (from_square + 1)), snd (east_loop 0 (from_square + 1)))"
    show "\<forall>b. east_loop b from_square
        = (b OR fst (east_loop 0 from_square), snd (east_loop 0 from_square))"
    proof (cases "from_square mod 8 \<noteq> 0")
      case True
      let ?m = "lshift HOT (uint64 from_square)"
      have step: "east_loop b from_square = east_loop (b OR ?m) (from_square + 1)" for b
        using True by (subst east_loop.simps) simp
      have ih: "east_loop (b OR ?m) (from_square + 1)
          = ((b OR ?m) OR fst (east_loop 0 (from_square + 1)), snd (east_loop 0 (from_square + 1)))"
        for b
        using IH [OF True] by blast
      have unfolded: "east_loop b from_square
          = (b OR (?m OR fst (east_loop 0 (from_square + 1))), snd (east_loop 0 (from_square + 1)))"
        for b
        by (simp only: step ih or.assoc)
      show ?thesis
        by (simp only: unfolded fst_conv snd_conv or.left_neutral simp_thms)
    next
      case False
      then have "east_loop b from_square = (b, from_square)" for b
        by (subst east_loop.simps) auto
      then show ?thesis by simp
    qed
  qed
  then show ?thesis by blast
qed

lemma southeast_loop_acc:
  "southeast_loop bb sq = (bb OR fst (southeast_loop 0 sq), snd (southeast_loop 0 sq))"
proof -
  have "\<forall>b. southeast_loop b sq = (b OR fst (southeast_loop 0 sq), snd (southeast_loop 0 sq))"
  proof (rule southeast_loop.induct
      [where P = "\<lambda>_ q. \<forall>b. southeast_loop b q = (b OR fst (southeast_loop 0 q), snd (southeast_loop 0 q))"
        and ?a0.0 = bb])
    fix bitboard :: bitboard and from_square :: int
    assume IH: "from_square mod 8 \<noteq> 0 \<and> from_square \<notin> set File_H \<Longrightarrow>
      \<forall>b. southeast_loop b (from_square - 7)
        = (b OR fst (southeast_loop 0 (from_square - 7)), snd (southeast_loop 0 (from_square - 7)))"
    show "\<forall>b. southeast_loop b from_square
        = (b OR fst (southeast_loop 0 from_square), snd (southeast_loop 0 from_square))"
    proof (cases "from_square mod 8 \<noteq> 0 \<and> from_square \<notin> set File_H")
      case True
      let ?m = "lshift HOT (uint64 from_square)"
      have step: "southeast_loop b from_square = southeast_loop (b OR ?m) (from_square - 7)" for b
        using True by (subst southeast_loop.simps) simp
      have ih: "southeast_loop (b OR ?m) (from_square - 7)
          = ((b OR ?m) OR fst (southeast_loop 0 (from_square - 7)), snd (southeast_loop 0 (from_square - 7)))"
        for b
        using IH [OF True] by blast
      have unfolded: "southeast_loop b from_square
          = (b OR (?m OR fst (southeast_loop 0 (from_square - 7))), snd (southeast_loop 0 (from_square - 7)))"
        for b
        by (simp only: step ih or.assoc)
      show ?thesis
        by (simp only: unfolded fst_conv snd_conv or.left_neutral simp_thms)
    next
      case False
      then have "southeast_loop b from_square = (b, from_square)" for b
        by (subst southeast_loop.simps) auto
      then show ?thesis by simp
    qed
  qed
  then show ?thesis by blast
qed

lemma northwest_loop_acc:
  "northwest_loop bb sq = (bb OR fst (northwest_loop 0 sq), snd (northwest_loop 0 sq))"
proof -
  have "\<forall>b. northwest_loop b sq = (b OR fst (northwest_loop 0 sq), snd (northwest_loop 0 sq))"
  proof (rule northwest_loop.induct
      [where P = "\<lambda>_ q. \<forall>b. northwest_loop b q = (b OR fst (northwest_loop 0 q), snd (northwest_loop 0 q))"
        and ?a0.0 = bb])
    fix bitboard :: bitboard and from_square :: int
    assume IH: "from_square mod 8 \<noteq> 0 \<and> from_square \<notin> set File_A \<Longrightarrow>
      \<forall>b. northwest_loop b (from_square + 7)
        = (b OR fst (northwest_loop 0 (from_square + 7)), snd (northwest_loop 0 (from_square + 7)))"
    show "\<forall>b. northwest_loop b from_square
        = (b OR fst (northwest_loop 0 from_square), snd (northwest_loop 0 from_square))"
    proof (cases "from_square mod 8 \<noteq> 0 \<and> from_square \<notin> set File_A")
      case True
      let ?m = "lshift HOT (uint64 from_square)"
      have step: "northwest_loop b from_square = northwest_loop (b OR ?m) (from_square + 7)" for b
        using True by (subst northwest_loop.simps) simp
      have ih: "northwest_loop (b OR ?m) (from_square + 7)
          = ((b OR ?m) OR fst (northwest_loop 0 (from_square + 7)), snd (northwest_loop 0 (from_square + 7)))"
        for b
        using IH [OF True] by blast
      have unfolded: "northwest_loop b from_square
          = (b OR (?m OR fst (northwest_loop 0 (from_square + 7))), snd (northwest_loop 0 (from_square + 7)))"
        for b
        by (simp only: step ih or.assoc)
      show ?thesis
        by (simp only: unfolded fst_conv snd_conv or.left_neutral simp_thms)
    next
      case False
      then have "northwest_loop b from_square = (b, from_square)" for b
        by (subst northwest_loop.simps) auto
      then show ?thesis by simp
    qed
  qed
  then show ?thesis by blast
qed

lemma southwest_loop_acc:
  "southwest_loop bb sq = (bb OR fst (southwest_loop 0 sq), snd (southwest_loop 0 sq))"
proof -
  have "\<forall>b. southwest_loop b sq = (b OR fst (southwest_loop 0 sq), snd (southwest_loop 0 sq))"
  proof (rule southwest_loop.induct
      [where P = "\<lambda>_ q. \<forall>b. southwest_loop b q = (b OR fst (southwest_loop 0 q), snd (southwest_loop 0 q))"
        and ?a0.0 = bb])
    fix bitboard :: bitboard and from_square :: int
    assume IH: "from_square mod 8 \<noteq> 0 \<Longrightarrow>
      \<forall>b. southwest_loop b (from_square - 9)
        = (b OR fst (southwest_loop 0 (from_square - 9)), snd (southwest_loop 0 (from_square - 9)))"
    show "\<forall>b. southwest_loop b from_square
        = (b OR fst (southwest_loop 0 from_square), snd (southwest_loop 0 from_square))"
    proof (cases "from_square mod 8 \<noteq> 0")
      case True
      let ?m = "lshift HOT (uint64 from_square)"
      have step: "southwest_loop b from_square = southwest_loop (b OR ?m) (from_square - 9)" for b
        using True by (subst southwest_loop.simps) simp
      have ih: "southwest_loop (b OR ?m) (from_square - 9)
          = ((b OR ?m) OR fst (southwest_loop 0 (from_square - 9)), snd (southwest_loop 0 (from_square - 9)))"
        for b
        using IH [OF True] by blast
      have unfolded: "southwest_loop b from_square
          = (b OR (?m OR fst (southwest_loop 0 (from_square - 9))), snd (southwest_loop 0 (from_square - 9)))"
        for b
        by (simp only: step ih or.assoc)
      show ?thesis
        by (simp only: unfolded fst_conv snd_conv or.left_neutral simp_thms)
    next
      case False
      then have "southwest_loop b from_square = (b, from_square)" for b
        by (subst southwest_loop.simps) auto
      then show ?thesis by simp
    qed
  qed
  then show ?thesis by blast
qed

lemma northeast_loop_acc:
  "northeast_loop bb sq = (bb OR fst (northeast_loop 0 sq), snd (northeast_loop 0 sq))"
proof -
  have "\<forall>b. northeast_loop b sq = (b OR fst (northeast_loop 0 sq), snd (northeast_loop 0 sq))"
  proof (rule northeast_loop.induct
      [where P = "\<lambda>_ q. \<forall>b. northeast_loop b q = (b OR fst (northeast_loop 0 q), snd (northeast_loop 0 q))"
        and ?a0.0 = bb])
    fix bitboard :: bitboard and from_square :: int
    assume IH: "from_square mod 8 \<noteq> 0 \<Longrightarrow>
      \<forall>b. northeast_loop b (from_square + 9)
        = (b OR fst (northeast_loop 0 (from_square + 9)), snd (northeast_loop 0 (from_square + 9)))"
    show "\<forall>b. northeast_loop b from_square
        = (b OR fst (northeast_loop 0 from_square), snd (northeast_loop 0 from_square))"
    proof (cases "from_square mod 8 \<noteq> 0")
      case True
      let ?m = "lshift HOT (uint64 from_square)"
      have step: "northeast_loop b from_square = northeast_loop (b OR ?m) (from_square + 9)" for b
        using True by (subst northeast_loop.simps) simp
      have ih: "northeast_loop (b OR ?m) (from_square + 9)
          = ((b OR ?m) OR fst (northeast_loop 0 (from_square + 9)), snd (northeast_loop 0 (from_square + 9)))"
        for b
        using IH [OF True] by blast
      have unfolded: "northeast_loop b from_square
          = (b OR (?m OR fst (northeast_loop 0 (from_square + 9))), snd (northeast_loop 0 (from_square + 9)))"
        for b
        by (simp only: step ih or.assoc)
      show ?thesis
        by (simp only: unfolded fst_conv snd_conv or.left_neutral simp_thms)
    next
      case False
      then have "northeast_loop b from_square = (b, from_square)" for b
        by (subst northeast_loop.simps) auto
      then show ?thesis by simp
    qed
  qed
  then show ?thesis by blast
qed

lemma get_west_ray_acc:
  "get_west_ray bb s = clear_bit_bb bb s OR get_west_ray 0 s"
proof -
  have or_acc: "fst (west_loop (bb OR m) q) = bb OR fst (west_loop m q)"
    "snd (west_loop (bb OR m) q) = snd (west_loop m q)" for m q
    using west_loop_acc [of "bb OR m" q] west_loop_acc [of m q] by (simp_all add: or.assoc)
  have acc: "fst (west_loop bb q) = bb OR fst (west_loop 0 q)"
    "snd (west_loop bb q) = snd (west_loop 0 q)" for q
    using west_loop_acc [of bb q] by simp_all
  show ?thesis
    by (simp add: get_west_ray_def Let_def split_beta or_acc acc clear_bit_bb_or
        clear_bit_bb_zero ac_simps)
qed

lemma get_east_ray_acc:
  "get_east_ray bb s = clear_bit_bb bb s OR get_east_ray 0 s"
proof -
  have or_acc: "fst (east_loop (bb OR m) q) = bb OR fst (east_loop m q)"
    "snd (east_loop (bb OR m) q) = snd (east_loop m q)" for m q
    using east_loop_acc [of "bb OR m" q] east_loop_acc [of m q] by (simp_all add: or.assoc)
  have acc: "fst (east_loop bb q) = bb OR fst (east_loop 0 q)"
    "snd (east_loop bb q) = snd (east_loop 0 q)" for q
    using east_loop_acc [of bb q] by simp_all
  show ?thesis
    by (simp add: get_east_ray_def Let_def split_beta or_acc acc clear_bit_bb_or
        clear_bit_bb_zero ac_simps)
qed

lemma get_southeast_ray_acc:
  "get_southeast_ray bb s = clear_bit_bb bb s OR get_southeast_ray 0 s"
proof -
  have or_acc: "fst (southeast_loop (bb OR m) q) = bb OR fst (southeast_loop m q)"
    "snd (southeast_loop (bb OR m) q) = snd (southeast_loop m q)" for m q
    using southeast_loop_acc [of "bb OR m" q] southeast_loop_acc [of m q] by (simp_all add: or.assoc)
  have acc: "fst (southeast_loop bb q) = bb OR fst (southeast_loop 0 q)"
    "snd (southeast_loop bb q) = snd (southeast_loop 0 q)" for q
    using southeast_loop_acc [of bb q] by simp_all
  show ?thesis
    by (simp add: get_southeast_ray_def Let_def split_beta or_acc acc clear_bit_bb_or
        clear_bit_bb_zero ac_simps)
qed

lemma get_northwest_ray_acc:
  "get_northwest_ray bb s = clear_bit_bb bb s OR get_northwest_ray 0 s"
proof -
  have or_acc: "fst (northwest_loop (bb OR m) q) = bb OR fst (northwest_loop m q)"
    "snd (northwest_loop (bb OR m) q) = snd (northwest_loop m q)" for m q
    using northwest_loop_acc [of "bb OR m" q] northwest_loop_acc [of m q] by (simp_all add: or.assoc)
  have acc: "fst (northwest_loop bb q) = bb OR fst (northwest_loop 0 q)"
    "snd (northwest_loop bb q) = snd (northwest_loop 0 q)" for q
    using northwest_loop_acc [of bb q] by simp_all
  show ?thesis
    by (simp add: get_northwest_ray_def Let_def split_beta or_acc acc clear_bit_bb_or
        clear_bit_bb_zero ac_simps)
qed

lemma get_southwest_ray_acc:
  "get_southwest_ray bb s = clear_bit_bb bb s OR get_southwest_ray 0 s"
proof -
  have or_acc: "fst (southwest_loop (bb OR m) q) = bb OR fst (southwest_loop m q)"
    "snd (southwest_loop (bb OR m) q) = snd (southwest_loop m q)" for m q
    using southwest_loop_acc [of "bb OR m" q] southwest_loop_acc [of m q] by (simp_all add: or.assoc)
  have acc: "fst (southwest_loop bb q) = bb OR fst (southwest_loop 0 q)"
    "snd (southwest_loop bb q) = snd (southwest_loop 0 q)" for q
    using southwest_loop_acc [of bb q] by simp_all
  show ?thesis
    by (simp add: get_southwest_ray_def Let_def split_beta or_acc acc clear_bit_bb_or
        clear_bit_bb_zero ac_simps)
qed

lemma get_northeast_ray_acc:
  "get_northeast_ray bb s = clear_bit_bb bb s OR get_northeast_ray 0 s"
proof -
  have or_acc: "fst (northeast_loop (bb OR m) q) = bb OR fst (northeast_loop m q)"
    "snd (northeast_loop (bb OR m) q) = snd (northeast_loop m q)" for m q
    using northeast_loop_acc [of "bb OR m" q] northeast_loop_acc [of m q] by (simp_all add: or.assoc)
  have acc: "fst (northeast_loop bb q) = bb OR fst (northeast_loop 0 q)"
    "snd (northeast_loop bb q) = snd (northeast_loop 0 q)" for q
    using northeast_loop_acc [of bb q] by simp_all
  show ?thesis
    by (simp add: get_northeast_ray_def Let_def split_beta or_acc acc clear_bit_bb_or
        clear_bit_bb_zero ac_simps)
qed

lemma get_north_ray_acc:
  "get_north_ray bb s = clear_bit_bb bb s OR get_north_ray 0 s"
  by (simp add: get_north_ray_def set_bit_bb_def clear_bit_bb_or clear_bit_bb_zero ac_simps)

lemma get_south_ray_acc:
  "get_south_ray bb s = clear_bit_bb bb s OR get_south_ray 0 s"
  by (simp add: get_south_ray_def set_bit_bb_def clear_bit_bb_or clear_bit_bb_zero ac_simps)

lemma get_west_ray_clear:
  "clear_bit_bb (get_west_ray bb s) s = get_west_ray bb s"
  by (simp add: get_west_ray_def Let_def split_beta clear_bit_bb_idem)

lemma get_east_ray_clear:
  "clear_bit_bb (get_east_ray bb s) s = get_east_ray bb s"
  by (simp add: get_east_ray_def Let_def split_beta clear_bit_bb_idem)

lemma get_southeast_ray_clear:
  "clear_bit_bb (get_southeast_ray bb s) s = get_southeast_ray bb s"
  by (simp add: get_southeast_ray_def Let_def split_beta clear_bit_bb_idem)

lemma get_northwest_ray_clear:
  "clear_bit_bb (get_northwest_ray bb s) s = get_northwest_ray bb s"
  by (simp add: get_northwest_ray_def Let_def split_beta clear_bit_bb_idem)

lemma get_southwest_ray_clear:
  "clear_bit_bb (get_southwest_ray bb s) s = get_southwest_ray bb s"
  by (simp add: get_southwest_ray_def Let_def split_beta clear_bit_bb_idem)

lemma get_northeast_ray_clear:
  "clear_bit_bb (get_northeast_ray bb s) s = get_northeast_ray bb s"
  by (simp add: get_northeast_ray_def Let_def split_beta clear_bit_bb_idem)

lemma get_north_ray_clear:
  "clear_bit_bb (get_north_ray bb s) s = get_north_ray bb s"
  by (simp add: get_north_ray_def Let_def split_beta clear_bit_bb_idem)

lemma get_south_ray_clear:
  "clear_bit_bb (get_south_ray bb s) s = get_south_ray bb s"
  by (simp add: get_south_ray_def Let_def split_beta clear_bit_bb_idem)

lemma gen_bishop_attack_rays:
  "gen_bishop_attack s =
     get_northeast_ray 0 s OR get_southwest_ray 0 s OR get_northwest_ray 0 s
       OR get_southeast_ray 0 s"
proof -
  let ?ne = "get_northeast_ray 0 s" and ?sw = "get_southwest_ray 0 s"
    and ?nw = "get_northwest_ray 0 s" and ?se = "get_southeast_ray 0 s"
  have cl: "clear_bit_bb ?ne s = ?ne" "clear_bit_bb ?sw s = ?sw"
    "clear_bit_bb ?nw s = ?nw" "clear_bit_bb ?se s = ?se"
    by (rule get_northeast_ray_clear get_southwest_ray_clear get_northwest_ray_clear
        get_southeast_ray_clear)+
  have 1: "get_southwest_ray ?ne s = ?ne OR ?sw"
    by (subst get_southwest_ray_acc) (simp only: cl)
  have 2: "get_northwest_ray (?ne OR ?sw) s = ?ne OR ?sw OR ?nw"
    by (subst get_northwest_ray_acc) (simp only: clear_bit_bb_or cl or.assoc)
  have 3: "get_southeast_ray (?ne OR ?sw OR ?nw) s = ?ne OR ?sw OR ?nw OR ?se"
    by (subst get_southeast_ray_acc) (simp only: clear_bit_bb_or cl or.assoc)
  show ?thesis
    unfolding gen_bishop_attack_def Let_def
    by (simp only: 1 2 3 clear_bit_bb_or cl)
qed

lemma gen_rook_attack_row_rays:
  "gen_rook_attack_row s = get_north_ray 0 s OR get_south_ray 0 s"
  unfolding gen_rook_attack_row_def Let_def
  by (simp only: get_south_ray_acc [of "get_north_ray 0 s"]
      clear_bit_bb_or get_north_ray_clear get_south_ray_clear)

lemma gen_rook_attack_file_rays:
  "gen_rook_attack_file s = get_east_ray 0 s OR get_west_ray 0 s"
  unfolding gen_rook_attack_file_def Let_def
  by (simp only: get_west_ray_acc [of "get_east_ray 0 s"]
      clear_bit_bb_or get_east_ray_clear get_west_ray_clear)

section \<open>Sliding pieces\<close>

lemma on_ray_diagonal:
  assumes "on_ray df dr s t" and "\<bar>df\<bar> = 1" and "\<bar>dr\<bar> = 1"
  shows "t mod 8 \<noteq> s mod 8 \<and> \<bar>t div 8 - s div 8\<bar> = \<bar>t mod 8 - s mod 8\<bar>"
proof -
  from assms(1) obtain k where k: "1 \<le> k" "t mod 8 = s mod 8 + k * df"
    "t div 8 = s div 8 + k * dr"
    by (auto simp: on_ray_def)
  have "\<bar>k * df\<bar> = k" "\<bar>k * dr\<bar> = k"
    using k(1) assms(2,3) by (simp_all add: abs_mult)
  moreover have "t mod 8 - s mod 8 = k * df" "t div 8 - s div 8 = k * dr"
    using k by simp_all
  ultimately show ?thesis
    using k(1) by auto
qed

lemma on_ray_straight:
  assumes "on_ray df dr s t" and "df = 0 \<or> dr = 0"
  shows "t mod 8 = s mod 8 \<or> t div 8 = s div 8"
  using assms by (auto simp: on_ray_def)

lemma on_ray_on_board: "on_ray df dr s t \<Longrightarrow> 0 \<le> t \<and> t \<le> 63"
  by (simp add: on_ray_def)

lemma bit_gen_bishop_attack:
  assumes "0 \<le> s" and "s \<le> 63"
  shows "bit (gen_bishop_attack s) i \<longleftrightarrow>
    on_ray 1 1 s (int i) \<or> on_ray (- 1) (- 1) s (int i) \<or> on_ray (- 1) 1 s (int i)
      \<or> on_ray 1 (- 1) s (int i)"
  by (simp only: gen_bishop_attack_rays ray_masks [OF assms] bit_or_iff bit_ray_mask)

lemma bit_gen_rook_attack:
  assumes "0 \<le> s" and "s \<le> 63"
  shows "bit (gen_rook_attack_row s OR gen_rook_attack_file s) i \<longleftrightarrow>
    (on_ray 0 1 s (int i) \<or> on_ray 0 (- 1) s (int i)) \<or> on_ray 1 0 s (int i)
      \<or> on_ray (- 1) 0 s (int i)"
  by (simp only: gen_rook_attack_row_rays gen_rook_attack_file_rays ray_masks [OF assms]
      bit_or_iff bit_ray_mask)

lemma bishop_square_diagonal:
  assumes "0 \<le> s" and "s \<le> 63" and "bit (gen_bishop_attack s) i"
  shows "int i mod 8 \<noteq> s mod 8
    \<and> \<bar>int i div 8 - s div 8\<bar> = \<bar>int i mod 8 - s mod 8\<bar> \<and> i < 64"
proof -
  from assms obtain df dr :: int where d: "on_ray df dr s (int i)" "\<bar>df\<bar> = 1" "\<bar>dr\<bar> = 1"
    unfolding bit_gen_bishop_attack [OF assms(1,2)] by fastforce
  from on_ray_on_board [OF d(1)] have "i < 64" by simp
  with on_ray_diagonal [OF d] show ?thesis by simp
qed

text \<open>
  C9. For every square \<open>s\<close> in \<open>[0,63]\<close> the bishop attack mask \<open>gen_bishop_attack(s)\<close>
  does not contain \<open>s\<close>, and every square it contains is on the board and on a diagonal of
  \<open>s\<close>: its rank differs from that of \<open>s\<close> by as much as its file does.
\<close>

theorem bishop_attack_diagonal:
  assumes "0 \<le> s" and "s \<le> 63"
  shows "\<not> bit (gen_bishop_attack s) (nat s)
    \<and> (\<forall>i. bit (gen_bishop_attack s) i \<longrightarrow>
          i < 64 \<and> \<bar>int i div 8 - s div 8\<bar> = \<bar>int i mod 8 - s mod 8\<bar>)"
proof -
  have "\<not> bit (gen_bishop_attack s) (nat s)"
    using bishop_square_diagonal [OF assms, of "nat s"] assms(1) by auto
  then show ?thesis
    using bishop_square_diagonal [OF assms] by blast
qed

lemma bishop_27_attacks_36: "bit (gen_bishop_attack 27) 36"
proof -
  have "on_ray 1 1 27 (int 36)"
    unfolding on_ray_def by (simp only: bex_1_7) simp
  then show ?thesis
    by (simp add: bit_gen_bishop_attack)
qed

theorem bishop_attack_diagonal_witness:
  "\<not> bit (gen_bishop_attack 27) 27 \<and> bit (gen_bishop_attack 27) 36 \<and> (36 :: nat) < 64
   \<and> \<bar>int 36 div 8 - 27 div 8\<bar> = \<bar>int 36 mod 8 - 27 mod 8\<bar>"
  using bishop_attack_diagonal [of 27] bishop_27_attacks_36 by simp

text \<open>
  C6. For every square \<open>s\<close> in \<open>[0,63]\<close> the rook masks united with the bishop mask are the
  queen mask, \<open>gen_rook_attack_row(s) | gen_rook_attack_file(s) | gen_bishop_attack(s) ==
  gen_queen_attack(s)\<close>, and the rook and bishop masks have no square in common.
\<close>

theorem queen_is_rook_and_bishop:
  assumes "0 \<le> s" and "s \<le> 63"
  shows "gen_rook_attack_row s OR gen_rook_attack_file s OR gen_bishop_attack s
      = gen_queen_attack s
    \<and> (gen_rook_attack_row s OR gen_rook_attack_file s) AND gen_bishop_attack s = 0"
proof -
  have "gen_rook_attack_row s OR gen_rook_attack_file s OR gen_bishop_attack s
      = gen_queen_attack s"
    by (simp add: gen_queen_attack_def ac_simps)
  moreover have "(gen_rook_attack_row s OR gen_rook_attack_file s) AND gen_bishop_attack s = 0"
  proof (rule bit_eqI)
    fix i
    have "\<not> (bit (gen_rook_attack_row s OR gen_rook_attack_file s) i
        \<and> bit (gen_bishop_attack s) i)"
    proof
      assume both: "bit (gen_rook_attack_row s OR gen_rook_attack_file s) i
        \<and> bit (gen_bishop_attack s) i"
      then obtain df dr :: int where "on_ray df dr s (int i)" "df = 0 \<or> dr = 0"
        unfolding bit_gen_rook_attack [OF assms] by fastforce
      then have "int i mod 8 = s mod 8 \<or> int i div 8 = s div 8"
        by (rule on_ray_straight)
      moreover from both have "int i mod 8 \<noteq> s mod 8"
        "\<bar>int i div 8 - s div 8\<bar> = \<bar>int i mod 8 - s mod 8\<bar>"
        using bishop_square_diagonal [OF assms] by blast+
      ultimately show False by auto
    qed
    then show "bit ((gen_rook_attack_row s OR gen_rook_attack_file s) AND gen_bishop_attack s) i
      \<longleftrightarrow> bit (0 :: bitboard) i"
      by (simp add: bit_and_iff)
  qed
  ultimately show ?thesis by blast
qed

theorem queen_is_rook_and_bishop_witness:
  "gen_rook_attack_row 27 OR gen_rook_attack_file 27 OR gen_bishop_attack 27
      = gen_queen_attack 27
   \<and> (gen_rook_attack_row 27 OR gen_rook_attack_file 27) AND gen_bishop_attack 27 = 0"
  using queen_is_rook_and_bishop [of 27] by simp

end
